theory Spec2Isabelle
  imports Main "HOL-Library.Sublist"
begin

section \<open>The CementGPT chat client (static/script.js)\<close>

text \<open>
  The client is one class, \<open>CementGPT\<close>, whose methods mutate three fields of the
  object and a handful of elements of the page. The embedding keeps the fields and
  the elements the methods touch in one record and turns every method into a function
  on that record. An asynchronous method is cut at its \<open>await\<close>: the part that runs
  when the method is called, and the part that runs when the answer of the server
  arrives, which takes that answer as an argument.

  Modelling decisions, stated once:
  \<^item> A JavaScript string is a \<open>string\<close>; a character stands for the UTF-16 code unit
    of the same number, so the strings covered are those over U+0000 .. U+00FF.
  \<^item> A property of a parsed JSON body is a \<open>jsval\<close>: absent (\<open>undefined\<close>), \<open>null\<close>,
    a boolean or a string. Numbers, arrays and objects in the place of such a
    property are outside the model; \<open>history\<close> is absent, \<open>null\<close> or an array of
    items, as the endpoint table has it.
  \<^item> The markup a message bubble receives through \<open>innerHTML\<close> is parsed by the
    browser. The parser is a component of the state (\<open>html\<close>); of what it builds
    the model keeps the elements and their ids, since \<open>removeTypingIndicator\<close> looks
    the placeholder up by id in the whole document.
  \<^item> The page has the elements the script looks up by a fixed id (\<open>toast\<close>,
    \<open>messageInput\<close>, \<open>sendBtn\<close>, \<open>statusIndicator\<close>, \<open>messagesContainer\<close>), and a
    lookup of such an id finds the element of the page: the model covers the pages
    on which these elements stand ahead of the message container, and on any page the
    transcripts whose bubbles carry none of these ids. No element of the page itself
    has an id of the form \<open>typing-n\<close>.
  \<^item> Layout (\<open>scrollToBottom\<close>, \<open>autoResizeInput\<close>) and \<open>console.error\<close> are not
    part of the state. The value written to the input is kept as written; a
    \<open>textarea\<close> would normalise the line ends of it.
  \<^item> Time is a counter of milliseconds in the state. A synchronous stretch of code
    takes no time; \<open>advance\<close> lets time pass and runs the timers that fall due.
\<close>

subsection \<open>JavaScript values and strings\<close>

datatype jsval = JUndefined | JNull | JBool bool | JStr string

datatype js_error = TypeError | FetchFailed | JsonSyntaxError

text \<open>Truthiness, as \<open>&&\<close>, \<open>||\<close> and \<open>if\<close> apply it.\<close>

fun js_truthy :: "jsval \<Rightarrow> bool" where
  "js_truthy JUndefined = False"
| "js_truthy JNull = False"
| "js_truthy (JBool b) = b"
| "js_truthy (JStr s) = (s \<noteq> [])"

text \<open>The conversion a template literal applies to an interpolated value.\<close>

fun js_to_string :: "jsval \<Rightarrow> string" where
  "js_to_string JUndefined = ''undefined''"
| "js_to_string JNull = ''null''"
| "js_to_string (JBool b) = (if b then ''true'' else ''false'')"
| "js_to_string (JStr s) = s"

text \<open>
  \<open>String.prototype.trim\<close> removes white space and line terminators at both ends;
  below U+0100 these are TAB, LF, VT, FF, CR, SPACE and NBSP.
\<close>

definition is_space :: "char \<Rightarrow> bool" where
  "is_space c = (c \<in> {CHR 0x09, CHR 0x0A, CHR 0x0B, CHR 0x0C, CHR 0x0D, CHR 0x20, CHR 0xA0})"

definition trim :: "string \<Rightarrow> string" where
  "trim s = rev (dropWhile is_space (rev (dropWhile is_space s)))"

text \<open>\<open>String.prototype.includes\<close> with a string argument.\<close>

fun str_includes :: "string \<Rightarrow> string \<Rightarrow> bool" where
  "str_includes sub [] = (sub = [])"
| "str_includes sub (c # cs) = (prefix sub (c # cs) \<or> str_includes sub cs)"

subsection \<open>formatMessage\<close>

text \<open>
  The dot of a regular expression (no \<open>s\<close> flag) matches every code unit but a line
  terminator: LF and CR below U+0100.
\<close>

definition is_line_terminator :: "char \<Rightarrow> bool" where
  "is_line_terminator c = (c = CHR 0x0A \<or> c = CHR 0x0D)"

text \<open>
  \<open>lazy_until d s\<close> is the match of \<open>(.*?)\<close> followed by the literal \<open>d\<close> at the
  start of \<open>s\<close>: the shortest run \<open>x\<close> of code units, none a line terminator, after
  which \<open>d\<close> stands; the result is \<open>x\<close> and what follows \<open>d\<close>.
\<close>

fun lazy_until :: "string \<Rightarrow> string \<Rightarrow> (string \<times> string) option" where
  "lazy_until d [] = (if d = [] then Some ([], []) else None)"
| "lazy_until d (c # cs) =
     (if prefix d (c # cs) then Some ([], drop (length d) (c # cs))
      else if is_line_terminator c then None
      else (case lazy_until d cs of
              None \<Rightarrow> None
            | Some (x, r) \<Rightarrow> Some (c # x, r)))"

lemma lazy_until_split: "lazy_until d s = Some (x, r) \<Longrightarrow> s = x @ d @ r"
  by (induction s arbitrary: x) (auto simp: prefix_def split: if_splits option.splits)

lemma lazy_until_shorter:
  assumes "d \<noteq> []" and "lazy_until d (drop (length d) s) = Some (x, r)"
  shows "length r < length s"
proof -
  have "drop (length d) s = x @ d @ r"
    using assms(2) by (rule lazy_until_split)
  then have "length (drop (length d) s) = length x + length d + length r"
    by simp
  with assms(1) show ?thesis
    by (cases d) auto
qed

text \<open>
  \<open>replace_span d a b s\<close> is \<open>s.replace(/d(.*?)d/g, a + '$1' + b)\<close> for a literal,
  non-empty delimiter \<open>d\<close>: the scan goes left to right, a match is replaced and the
  scan resumes behind it, a position without a match keeps its code unit.
\<close>

function replace_span :: "string \<Rightarrow> string \<Rightarrow> string \<Rightarrow> string \<Rightarrow> string" where
  "replace_span d a b [] = []"
| "replace_span d a b (c # cs) =
     (if d \<noteq> [] \<and> prefix d (c # cs) then
        (case lazy_until d (drop (length d) (c # cs)) of
           Some (x, r) \<Rightarrow> a @ x @ b @ replace_span d a b r
         | None \<Rightarrow> c # replace_span d a b cs)
      else c # replace_span d a b cs)"
  by pat_completeness auto
termination
proof (relation "measure (\<lambda>(d, a, b, s). length s)", goal_cases)
  case 1
  show ?case by simp
next
  case 2
  then show ?case by simp
next
  case 3
  then show ?case by (simp only: in_measure prod.case) (metis lazy_until_shorter)
next
  case 4
  then show ?case by simp
qed

text \<open>\<open>replace(/\n\n/g, '</p><p>')\<close> and \<open>replace(/\n/g, '<br>')\<close>.\<close>

fun para_breaks :: "string \<Rightarrow> string" where
  "para_breaks (a # b # cs) =
     (if a = CHR 0x0A \<and> b = CHR 0x0A then ''</p><p>'' @ para_breaks cs
      else a # para_breaks (b # cs))"
| "para_breaks cs = cs"

fun line_breaks :: "string \<Rightarrow> string" where
  "line_breaks [] = []"
| "line_breaks (c # cs) =
     (if c = CHR 0x0A then ''<br>'' @ line_breaks cs else c # line_breaks cs)"

definition formatMessage :: "string \<Rightarrow> string" where
  "formatMessage content =
     (let content = replace_span ''**'' ''<strong>'' ''</strong>'' content;
          content = replace_span ''*'' ''<em>'' ''</em>'' content;
          content = replace_span [CHR 0x60] ''<code>'' ''</code>'' content;
          content = para_breaks content;
          content = line_breaks content
      in if str_includes ''<br>'' content \<or> str_includes ''</p>'' content
         then ''<p>'' @ content @ ''</p>''
         else content)"

subsection \<open>The state of the client and of the page\<close>

text \<open>
  An entry of \<open>conversationHistory\<close> carries \<open>role\<close>, \<open>message\<close> and \<open>timestamp\<close>.
  The client writes \<open>new Date().toISOString()\<close> into \<open>timestamp\<close>; \<open>Some t\<close> stands
  for that string at the instant \<open>t\<close>. An item sent by the server is kept as it came;
  the client reads its \<open>role\<close> and \<open>message\<close> only, and its \<open>timestamp\<close> is \<open>None\<close>.
\<close>

record hist_entry =
  role :: jsval
  message :: jsval
  timestamp :: "nat option"

datatype avatar = UserIcon | RobotIcon

text \<open>
  An element built from the markup of a bubble: its id (the empty string when it has
  none) and the elements inside it. A list of elements is in document order, and an
  element stands ahead of the elements inside it.
\<close>

datatype elem = Elem string "elem list"

fun has_id :: "string \<Rightarrow> elem \<Rightarrow> bool" where
  "has_id i (Elem j cs) = (j = i \<or> list_ex (has_id i) cs)"

text \<open>
  \<open>remove_first i es\<close> detaches the first element with the id \<open>i\<close>, and with it
  the elements inside it, as \<open>getElementById\<close> followed by \<open>remove\<close> does.
\<close>

fun remove_first :: "string \<Rightarrow> elem list \<Rightarrow> elem list" where
  "remove_first i [] = []"
| "remove_first i (Elem j cs # es) =
     (if j = i then es
      else if list_ex (has_id i) cs then Elem j (remove_first i cs) # es
      else Elem j cs # remove_first i es)"

text \<open>
  The children of \<open>messagesContainer\<close>. \<open>MessageDiv\<close> is the element \<open>addMessage\<close>
  builds (the welcome message of the page is one of the same shape): its class, the
  avatar, the class of the text block, the markup written into the text block, the
  instant shown by \<open>toLocaleTimeString\<close>, and the elements the parser built from
  that markup, as far as they are still attached. The fixed parts of the template
  carry no id. \<open>TypingDiv n\<close> is the placeholder whose id is \<open>typing-n\<close>; its class
  is \<open>message agent-message typing-indicator\<close> and nothing inside it has an id.
\<close>

datatype node =
    MessageDiv string avatar string string nat "elem list"
  | TypingDiv nat


text \<open>\<open>String(n)\<close> for a natural number below \<open>10^21\<close>, and the id of a placeholder.\<close>

function decimal :: "nat \<Rightarrow> string" where
  "decimal n =
     (if n < 10 then [''0123456789'' ! n]
      else decimal (n div 10) @ [''0123456789'' ! (n mod 10)])"
  by pat_completeness auto
termination
  by (relation "measure (\<lambda>n. n)") auto

definition typing_id :: "nat \<Rightarrow> string" where
  "typing_id n = ''typing-'' @ decimal n"

datatype request = GetStatus | PostChat string | PostClear | GetHistory

record state =
  isTyping :: bool
  conversationHistory :: "hist_entry list"
  systemStatus :: string
  input_value :: string
  input_disabled :: bool
  input_placeholder :: string
  send_disabled :: bool
  indicator_class :: string
  indicator_text :: string
  messages :: "node list"
  toast_icon :: string
  toast_message :: jsval
  toast_class :: string
  toast_show :: bool
  timers :: "nat list"
  clock :: nat
  requests :: "request list"
  html :: "string \<Rightarrow> elem list"

text \<open>
  What \<open>await fetch(...)\<close> followed by \<open>await response.json()\<close> gives: the request
  fails, the body is not JSON, the body is \<open>null\<close>, or the body is parsed. A parsed
  body that is no object has every property absent.
\<close>

datatype 'a reply = FetchRejected | NotJson | JsonNull | Json 'a

record status_data =
  rag_available :: jsval
  vertex_ai_initialized :: jsval
  status_message :: jsval

record chat_data =
  chat_status :: jsval
  chat_response :: jsval
  chat_message :: jsval

record clear_data =
  clear_status :: jsval

datatype history_field = HistoryUndefined | HistoryNull | HistoryArray "hist_entry list"

record history_data =
  history_status :: jsval
  history :: history_field

text \<open>
  The constructor sets the three fields of the object on the page as loaded. The two
  requests it starts enter the list of requests when their answers are processed, in
  \<open>checkSystemStatus\<close> and \<open>loadConversationHistory\<close>.
\<close>

definition new_CementGPT :: "state \<Rightarrow> state" where
  "new_CementGPT page =
     page\<lparr>isTyping := False, conversationHistory := [], systemStatus := ''checking''\<rparr>"

subsection \<open>Notifications and timers\<close>

definition icons :: "string \<Rightarrow> string option" where
  "icons = map_of
     [(''success'', ''fas fa-check-circle''),
      (''error'', ''fas fa-exclamation-circle''),
      (''warning'', ''fas fa-exclamation-triangle''),
      (''info'', ''fas fa-info-circle'')]"

text \<open>
  The callers pass the types \<open>success\<close>, \<open>error\<close> and \<open>warning\<close>; \<open>icons\<close> is the table
  of the method for such keys. The lookups of \<open>toast\<close> and of the two elements inside
  it find the elements of the page.
  \<open>toast_class\<close> is the class assigned (\<open>toast\<close> and the type), \<open>toast_show\<close> tells
  whether the token \<open>show\<close> is in the class list, \<open>toast_message\<close> is the value
  assigned to \<open>textContent\<close>. \<open>setTimeout\<close> adds the instant at which its callback
  falls due to \<open>timers\<close>; every callback in that list removes the token \<open>show\<close>.
\<close>

definition showToast :: "string \<Rightarrow> jsval \<Rightarrow> state \<Rightarrow> state" where
  "showToast type msg s =
     s\<lparr>toast_icon := ''toast-icon '' @
            (case icons type of Some i \<Rightarrow> i | None \<Rightarrow> ''fas fa-info-circle''),
       toast_message := msg,
       toast_class := ''toast '' @ type,
       toast_show := True,
       timers := timers s @ [clock s + 5000]\<rparr>"

text \<open>Time passes to the instant \<open>t\<close>; the callbacks due by then run.\<close>

definition advance :: "nat \<Rightarrow> state \<Rightarrow> state" where
  "advance t s =
     (if t < clock s then s
      else s\<lparr>clock := t,
             timers := filter (\<lambda>d. t < d) (timers s),
             toast_show := (toast_show s \<and> \<not> list_ex (\<lambda>d. d \<le> t) (timers s))\<rparr>)"

subsection \<open>Readiness\<close>

definition updateStatusIndicator :: "string \<Rightarrow> string \<Rightarrow> state \<Rightarrow> state" where
  "updateStatusIndicator status msg s =
     s\<lparr>indicator_class := ''status-indicator '' @ status, indicator_text := msg\<rparr>"

definition enableChat :: "state \<Rightarrow> state" where
  "enableChat s =
     s\<lparr>input_disabled := False, send_disabled := False,
       input_placeholder := ''Ask me about your documents or manage your corpora...''\<rparr>"

definition disableChat :: "state \<Rightarrow> state" where
  "disableChat s =
     s\<lparr>input_disabled := True, send_disabled := True,
       input_placeholder := ''System is not ready. Please check configuration.''\<rparr>"

text \<open>
  The \<open>try\<close> block of \<open>checkSystemStatus\<close>: the state it leaves and the exception, if
  one was thrown. Reading a property of \<open>null\<close> throws a \<open>TypeError\<close>.
\<close>

definition checkSystemStatus_try :: "status_data reply \<Rightarrow> state \<Rightarrow> js_error option \<times> state" where
  "checkSystemStatus_try r s =
     (case r of
        FetchRejected \<Rightarrow> (Some FetchFailed, s)
      | NotJson \<Rightarrow> (Some JsonSyntaxError, s)
      | JsonNull \<Rightarrow> (Some TypeError, s)
      | Json data \<Rightarrow>
          if js_truthy (rag_available data) \<and> js_truthy (vertex_ai_initialized data)
          then (None, enableChat (updateStatusIndicator ''online'' ''System Ready'' s))
          else (None,
            showToast ''error''
              (if js_truthy (status_message data) then status_message data
               else JStr ''System is not ready'')
              (disableChat (updateStatusIndicator ''offline'' ''System Unavailable'' s))))"

definition checkSystemStatus :: "status_data reply \<Rightarrow> state \<Rightarrow> state" where
  "checkSystemStatus r s =
     (case checkSystemStatus_try r (s\<lparr>requests := requests s @ [GetStatus]\<rparr>) of
        (None, s') \<Rightarrow> s'
      | (Some e, s') \<Rightarrow>
          showToast ''error'' (JStr ''Failed to connect to server'')
            (disableChat (updateStatusIndicator ''offline'' ''Connection Failed'' s')))"

subsection \<open>Rendering messages\<close>

text \<open>
  \<open>addMessage\<close> builds the markup before it appends the element, and
  \<open>formatMessage\<close> calls \<open>content.replace\<close> first: on a content that is no string
  this throws a \<open>TypeError\<close> and nothing is appended.
\<close>

definition addMessage :: "jsval \<Rightarrow> jsval \<Rightarrow> bool \<Rightarrow> state \<Rightarrow> js_error + state" where
  "addMessage r content isError s =
     (case content of
        JStr c \<Rightarrow>
          Inr (s\<lparr>messages := messages s @
                 [MessageDiv (''message '' @ js_to_string r @ ''-message'')
                    (if r = JStr ''user'' then UserIcon else RobotIcon)
                    (if isError then ''message-text error-message'' else ''message-text'')
                    (formatMessage c)
                    (clock s)
                    (html s (formatMessage c))]\<rparr>)
      | _ \<Rightarrow> Inl TypeError)"

text \<open>The id is \<open>typing-\<close> followed by \<open>Date.now()\<close>; the function returns it.\<close>

definition addTypingIndicator :: "state \<Rightarrow> nat \<times> state" where
  "addTypingIndicator s = (clock s, s\<lparr>messages := messages s @ [TypingDiv (clock s)]\<rparr>)"

text \<open>
  \<open>getElementById\<close> finds the first element of the document with the id, if there
  is one: an element inside a bubble that stands ahead of the placeholder, when the
  markup of that bubble brought one in, and the placeholder otherwise. What it finds
  is detached.
\<close>

fun remove_by_id :: "nat \<Rightarrow> node list \<Rightarrow> node list" where
  "remove_by_id n [] = []"
| "remove_by_id n (MessageDiv c a t h i f # ns) =
     (if list_ex (has_id (typing_id n)) f
      then MessageDiv c a t h i (remove_first (typing_id n) f) # ns
      else MessageDiv c a t h i f # remove_by_id n ns)"
| "remove_by_id n (TypingDiv m # ns) =
     (if typing_id m = typing_id n then ns else TypingDiv m # remove_by_id n ns)"

definition removeTypingIndicator :: "nat \<Rightarrow> state \<Rightarrow> state" where
  "removeTypingIndicator typingId s =
     s\<lparr>messages := remove_by_id typingId (messages s)\<rparr>"

subsection \<open>sendMessage\<close>

text \<open>
  The part before the \<open>await\<close>. It returns the state and, when the request was
  issued, the two local variables the rest of the method still uses: \<open>message\<close>
  and \<open>typingId\<close>.
\<close>

definition sendMessage_begin :: "state \<Rightarrow> state \<times> (string \<times> nat) option" where
  "sendMessage_begin s0 =
     (let msg = trim (input_value s0) in
      if msg = [] \<or> isTyping s0 then (s0, None)
      else
        let s = s0\<lparr>input_value := []\<rparr> in
        (case addMessage (JStr ''user'') (JStr msg) False s of
           Inl e \<Rightarrow> (s, None)
         | Inr s \<Rightarrow>
             let s = s\<lparr>isTyping := True\<rparr>;
                 (typingId, s) = addTypingIndicator s;
                 s = s\<lparr>requests := requests s @ [PostChat msg]\<rparr>
             in (s, Some (msg, typingId))))"

text \<open>The rest of the \<open>try\<close> block, once the answer is there.\<close>

definition sendMessage_try ::
  "string \<times> nat \<Rightarrow> chat_data reply \<Rightarrow> state \<Rightarrow> js_error option \<times> state" where
  "sendMessage_try p r s0 =
     (case r of
        FetchRejected \<Rightarrow> (Some FetchFailed, s0)
      | NotJson \<Rightarrow> (Some JsonSyntaxError, s0)
      | JsonNull \<Rightarrow> (Some TypeError, removeTypingIndicator (snd p) s0)
      | Json data \<Rightarrow>
          let s = removeTypingIndicator (snd p) s0 in
          if chat_status data = JStr ''success'' then
            (case addMessage (JStr ''agent'') (chat_response data) False s of
               Inl e \<Rightarrow> (Some e, s)
             | Inr s \<Rightarrow>
                 (None,
                  s\<lparr>conversationHistory := conversationHistory s @
                      [\<lparr>role = JStr ''user'', message = JStr (fst p),
                        timestamp = Some (clock s)\<rparr>,
                       \<lparr>role = JStr ''agent'', message = chat_response data,
                        timestamp = Some (clock s)\<rparr>]\<rparr>))
          else
            (case addMessage (JStr ''agent'')
                    (JStr (''Error: '' @ js_to_string (chat_message data))) True s of
               Inl e \<Rightarrow> (Some e, s)
             | Inr s \<Rightarrow> (None, showToast ''error'' (chat_message data) s)))"

definition sendMessage_catch :: "nat \<Rightarrow> state \<Rightarrow> state" where
  "sendMessage_catch typingId s0 =
     (let s = removeTypingIndicator typingId s0 in
      case addMessage (JStr ''agent'')
             (JStr ''Sorry, I encountered an error processing your request. Please try again.'')
             True s of
        Inl e \<Rightarrow> s
      | Inr s \<Rightarrow> showToast ''error'' (JStr ''Failed to send message'') s)"

text \<open>\<open>try\<close>, \<open>catch\<close> when the \<open>try\<close> block threw, and \<open>finally\<close>.\<close>

definition sendMessage_settle :: "string \<times> nat \<Rightarrow> chat_data reply \<Rightarrow> state \<Rightarrow> state" where
  "sendMessage_settle p r s0 =
     (let (e, s) = sendMessage_try p r s0;
          s = (case e of None \<Rightarrow> s | Some x \<Rightarrow> sendMessage_catch (snd p) s)
      in s\<lparr>isTyping := False\<rparr>)"

text \<open>
  The global function behind the suggestion buttons of the page. The value is kept
  as written.
\<close>

definition sendSuggestion :: "string \<Rightarrow> state \<Rightarrow> state \<times> (string \<times> nat) option" where
  "sendSuggestion msg s = sendMessage_begin (s\<lparr>input_value := msg\<rparr>)"

subsection \<open>clearConversation and loadConversationHistory\<close>

text \<open>
  Every child of the container has the class \<open>message\<close>, so \<open>querySelectorAll\<close>
  lists them all; the loop removes the elements whose index is above 0.
\<close>

definition keep_first :: "node list \<Rightarrow> node list" where
  "keep_first ms = map snd (filter (\<lambda>(index, m). \<not> 0 < index) (enumerate 0 ms))"

definition clearConversation_catch :: "state \<Rightarrow> state" where
  "clearConversation_catch s = showToast ''error'' (JStr ''Failed to clear conversation'') s"

text \<open>\<open>confirmed\<close> is the answer to the \<open>confirm\<close> dialogue.\<close>

definition clearConversation :: "bool \<Rightarrow> clear_data reply \<Rightarrow> state \<Rightarrow> state" where
  "clearConversation confirmed r s0 =
     (if \<not> confirmed then s0
      else
        let s = s0\<lparr>requests := requests s0 @ [PostClear]\<rparr> in
        (case r of
           FetchRejected \<Rightarrow> clearConversation_catch s
         | NotJson \<Rightarrow> clearConversation_catch s
         | JsonNull \<Rightarrow> clearConversation_catch s
         | Json data \<Rightarrow>
             if clear_status data = JStr ''success'' then
               showToast ''success'' (JStr ''Conversation cleared'')
                 (s\<lparr>messages := keep_first (messages s), conversationHistory := []\<rparr>)
             else s))"

text \<open>
  The \<open>forEach\<close> over the history: an item whose message is no string makes
  \<open>addMessage\<close> throw, which ends the loop; the \<open>catch\<close> only logs.
\<close>

fun restore_messages :: "hist_entry list \<Rightarrow> state \<Rightarrow> state" where
  "restore_messages [] s = s"
| "restore_messages (item # items) s =
     (case addMessage (role item) (message item) False s of
        Inl e \<Rightarrow> s
      | Inr s' \<Rightarrow> restore_messages items s')"

definition loadConversationHistory :: "history_data reply \<Rightarrow> state \<Rightarrow> state" where
  "loadConversationHistory r s0 =
     (let s = s0\<lparr>requests := requests s0 @ [GetHistory]\<rparr> in
      case r of
        FetchRejected \<Rightarrow> s
      | NotJson \<Rightarrow> s
      | JsonNull \<Rightarrow> s
      | Json data \<Rightarrow>
          if history_status data = JStr ''success'' then
            (case history data of
               HistoryUndefined \<Rightarrow> s
             | HistoryNull \<Rightarrow> s
             | HistoryArray items \<Rightarrow>
                 if 0 < length items
                 then restore_messages items (s\<lparr>conversationHistory := items\<rparr>)
                 else s)
          else s)"

subsection \<open>Vocabulary of the properties\<close>
















text \<open>
  The value of \<open>content\<close> in \<open>formatMessage\<close> after the five replacements, before
  the test that wraps it in a paragraph.
\<close>

definition format_body :: "string \<Rightarrow> string" where
  "format_body content =
     line_breaks (para_breaks
       (replace_span [CHR 0x60] ''<code>'' ''</code>''
         (replace_span ''*'' ''<em>'' ''</em>''
           (replace_span ''**'' ''<strong>'' ''</strong>'' content))))"

text \<open>
  What the specification calls a span: the delimiter, a text on one line, the
  delimiter again. \<open>span_at d s\<close> says that a span delimited by \<open>d\<close> starts at the
  head of \<open>s\<close>. In \<open>pre @ d @ x @ d @ rest\<close> the span around \<open>x\<close> is the first one when
  \<open>x\<close> is on one line, no span starts inside \<open>pre\<close>, and \<open>d\<close> does not stand earlier
  behind the opening delimiter, so that \<open>x\<close> is the shortest text that closes it.
  \<open>occurs_in sub s\<close> says that \<open>sub\<close> is a substring of \<open>s\<close>.
\<close>

definition one_line :: "string \<Rightarrow> bool" where
  "one_line x = (CHR 0x0A \<notin> set x \<and> CHR 0x0D \<notin> set x)"

definition occurs_in :: "string \<Rightarrow> string \<Rightarrow> bool" where
  "occurs_in sub s = (\<exists>p q. s = p @ sub @ q)"

definition span_at :: "string \<Rightarrow> string \<Rightarrow> bool" where
  "span_at d s = (\<exists>y q. s = d @ y @ d @ q \<and> one_line y)"

definition first_span :: "string \<Rightarrow> string \<Rightarrow> string \<Rightarrow> string \<Rightarrow> bool" where
  "first_span d pre x rest =
     (one_line x \<and>
      (\<forall>i<length pre. \<not> span_at d (drop i (pre @ d @ x @ d @ rest))) \<and>
      (\<forall>k<length x. \<not> prefix d (drop k (x @ d @ rest))))"

definition no_span :: "string \<Rightarrow> string \<Rightarrow> bool" where
  "no_span d s = (\<forall>i<length s. \<not> span_at d (drop i s))"

text \<open>
  A page to run the client on. The markup of the page is not among the sources; its
  transcript starts with one welcome message, as \<open>clearConversation\<close> expects. The
  parser of the examples agrees with a browser on the markup that occurs in them: it
  builds one element with the id \<open>typing-0\<close> from the markup that names this id, and
  no element with an id from the other texts.
\<close>

definition welcome_message :: "node" where
  "welcome_message =
     MessageDiv ''message agent-message'' RobotIcon ''message-text''
       ''Welcome to CementGPT'' 0 []"

definition example_html :: "string \<Rightarrow> elem list" where
  "example_html h = (if h = ''<b id=typing-0>x</b>'' then [Elem ''typing-0'' []] else [])"

definition example_page :: "state" where
  "example_page =
     \<lparr>isTyping = False, conversationHistory = [], systemStatus = [],
      input_value = [], input_disabled = False, input_placeholder = [],
      send_disabled = False,
      indicator_class = ''status-indicator checking'', indicator_text = ''Checking...'',
      messages = [welcome_message],
      toast_icon = ''toast-icon'', toast_message = JStr [], toast_class = ''toast'',
      toast_show = False, timers = [], clock = 0, requests = [],
      html = example_html\<rparr>"

text \<open>The same page with \<open>hello\<close> typed and sent, the answer still outstanding.\<close>

definition example_in_flight :: "state" where
  "example_in_flight =
     fst (sendMessage_begin (new_CementGPT example_page\<lparr>input_value := '' hello ''\<rparr>))"


subsection \<open>The runs of the client\<close>

text \<open>
  What can happen to the client once it is constructed: the input is edited,
  \<open>sendMessage\<close> is called (Enter in the input, the send button), a suggestion is
  clicked, the conversation is to be cleared (the answer to the dialogue and the
  answer of the server are taken at the same step), an answer to the status, history
  or chat request arrives, or time passes. Next to the state, a configuration holds
  the continuations of \<open>sendMessage\<close> that still wait for their answer, oldest
  first.
\<close>

datatype event =
    Typed string
  | SendRequested
  | SuggestionClicked string
  | ChatReply "chat_data reply"
  | StatusReply "status_data reply"
  | ClearRequested bool "clear_data reply"
  | HistoryReply "history_data reply"
  | TimePasses nat

fun pending_of :: "(string \<times> nat) option \<Rightarrow> (string \<times> nat) list" where
  "pending_of None = []"
| "pending_of (Some p) = [p]"

fun step :: "event \<Rightarrow> state \<times> (string \<times> nat) list \<Rightarrow> state \<times> (string \<times> nat) list" where
  "step (Typed v) (s, ps) = (s\<lparr>input_value := v\<rparr>, ps)"
| "step SendRequested (s, ps) =
     (case sendMessage_begin s of (s', q) \<Rightarrow> (s', ps @ pending_of q))"
| "step (SuggestionClicked v) (s, ps) =
     (case sendSuggestion v s of (s', q) \<Rightarrow> (s', ps @ pending_of q))"
| "step (ChatReply r) (s, []) = (s, [])"
| "step (ChatReply r) (s, p # ps) = (sendMessage_settle p r s, ps)"
| "step (StatusReply r) (s, ps) = (checkSystemStatus r s, ps)"
| "step (ClearRequested c r) (s, ps) = (clearConversation c r s, ps)"
| "step (HistoryReply r) (s, ps) = (loadConversationHistory r s, ps)"
| "step (TimePasses t) (s, ps) = (advance t s, ps)"

text \<open>
  Single flight: at most one continuation waits, and the flag is set exactly while
  one does.
\<close>

fun single_flight :: "state \<times> (string \<times> nat) list \<Rightarrow> bool" where
  "single_flight (s, []) = (\<not> isTyping s)"
| "single_flight (s, [p]) = isTyping s"
| "single_flight (s, p # q # ps) = False"

subsection \<open>Auxiliary facts\<close>

lemma trim_hello: "trim '' hello '' = ''hello''"
  by (simp add: trim_def is_space_def)


lemma addMessage_string:
  "addMessage r (JStr c) e s =
     Inr (s\<lparr>messages := messages s @
            [MessageDiv (''message '' @ js_to_string r @ ''-message'')
               (if r = JStr ''user'' then UserIcon else RobotIcon)
               (if e then ''message-text error-message'' else ''message-text'')
               (formatMessage c) (clock s) (html s (formatMessage c))]\<rparr>)"
  by (simp add: addMessage_def)

lemma sendMessage_begin_sends:
  assumes "trim (input_value s) \<noteq> []" and "\<not> isTyping s"
  shows "sendMessage_begin s =
           (s\<lparr>input_value := [],
              messages := messages s @
                [MessageDiv ''message user-message'' UserIcon ''message-text''
                   (formatMessage (trim (input_value s))) (clock s)
                   (html s (formatMessage (trim (input_value s)))),
                 TypingDiv (clock s)],
              isTyping := True,
              requests := requests s @ [PostChat (trim (input_value s))]\<rparr>,
            Some (trim (input_value s), clock s))"
  using assms
  by (simp add: sendMessage_begin_def addMessage_string addTypingIndicator_def Let_def)

lemma formatMessage_hello: "formatMessage ''hello'' = ''hello''"
  by (simp add: formatMessage_def)


lemma example_in_flight_eq:
  "example_in_flight =
     example_page\<lparr>isTyping := True, input_value := [],
       messages := [welcome_message,
         MessageDiv ''message user-message'' UserIcon ''message-text'' ''hello'' 0 [],
         TypingDiv 0],
       systemStatus := ''checking'',
       requests := [PostChat ''hello'']\<rparr>"
  by (simp add: example_in_flight_def sendMessage_begin_sends new_CementGPT_def
      example_page_def trim_hello formatMessage_hello example_html_def)









lemma sendMessage_settle_flag: "isTyping (sendMessage_settle p r t) = False"
  by (simp add: sendMessage_settle_def split: prod.splits)



subsection \<open>Facts about formatMessage\<close>

lemma formatMessage_wrap:
  "formatMessage s =
     (if str_includes ''<br>'' (format_body s) \<or> str_includes ''</p>'' (format_body s)
      then ''<p>'' @ format_body s @ ''</p>'' else format_body s)"
  by (simp add: formatMessage_def format_body_def Let_def)

lemma prefix_hd: "prefix d (c # s) \<Longrightarrow> d \<noteq> [] \<Longrightarrow> hd d = c"
  by (cases d) simp_all

lemma lazy_until_found:
  assumes "d \<noteq> []" and "hd d \<notin> set x" and "list_all (\<lambda>c. \<not> is_line_terminator c) x"
  shows "lazy_until d (x @ d @ r) = Some (x, r)"
  using assms(2,3)
proof (induction x)
  case Nil
  from assms(1) obtain c cs where d: "d = c # cs"
    by (cases d) auto
  then show ?case by simp
next
  case (Cons c x)
  then have "\<not> prefix d (c # x @ d @ r)"
    using prefix_hd [OF _ assms(1)] by auto
  with Cons show ?case by simp
qed

lemma replace_span_skip:
  assumes "d \<noteq> []" and "hd d \<notin> set p"
  shows "replace_span d a b (p @ s) = p @ replace_span d a b s"
  using assms(2)
proof (induction p)
  case Nil
  show ?case by simp
next
  case (Cons c p)
  then have "\<not> prefix d (c # p @ s)"
    using prefix_hd [OF _ assms(1)] by auto
  with Cons show ?case by simp
qed

lemma replace_span_match:
  assumes "d \<noteq> []" and "hd d \<notin> set x" and "list_all (\<lambda>c. \<not> is_line_terminator c) x"
  shows "replace_span d a b (d @ x @ d @ r) = a @ x @ b @ replace_span d a b r"
proof -
  from assms(1) obtain c cs where d: "d = c # cs"
    by (cases d) auto
  have "lazy_until d (drop (length d) (d @ x @ d @ r)) = Some (x, r)"
    using lazy_until_found [OF assms] by simp
  moreover have "prefix d (d @ x @ d @ r)"
    by simp
  ultimately show ?thesis
    using assms(1) unfolding d by (simp del: lazy_until.simps)
qed

lemma para_breaks_skip:
  "CHR 0x0A \<notin> set p \<Longrightarrow> para_breaks (p @ s) = p @ para_breaks s"
proof (induction p)
  case Nil
  show ?case by simp
next
  case (Cons a p)
  then show ?case by (cases "p @ s") auto
qed

lemma line_breaks_append: "line_breaks (p @ s) = line_breaks p @ line_breaks s"
  by (induction p) simp_all

lemma line_breaks_id: "CHR 0x0A \<notin> set p \<Longrightarrow> line_breaks p = p"
  by (induction p) auto

lemma line_breaks_no_newline: "CHR 0x0A \<notin> set (line_breaks s)"
  by (induction s) simp_all

text \<open>An input with a newline is always wrapped.\<close>

lemma str_includes_iff: "str_includes sub s \<longleftrightarrow> (\<exists>p q. s = p @ sub @ q)"
proof (induction s)
  case Nil
  show ?case by auto
next
  case (Cons c cs)
  show ?case
  proof
    assume "str_includes sub (c # cs)"
    then consider "prefix sub (c # cs)" | "str_includes sub cs"
      by auto
    then show "\<exists>p q. c # cs = p @ sub @ q"
    proof cases
      case 1
      then obtain q where "c # cs = sub @ q"
        by (auto simp add: prefix_def)
      then have "c # cs = [] @ sub @ q"
        by simp
      then show ?thesis by blast
    next
      case 2
      with Cons obtain p q where "cs = p @ sub @ q"
        by auto
      then have "c # cs = (c # p) @ sub @ q"
        by simp
      then show ?thesis by blast
    qed
  next
    assume "\<exists>p q. c # cs = p @ sub @ q"
    then obtain p q where e: "c # cs = p @ sub @ q"
      by auto
    show "str_includes sub (c # cs)"
    proof (cases p)
      case Nil
      with e have "prefix sub (c # cs)"
        by (simp add: prefix_def)
      then show ?thesis by simp
    next
      case (Cons a p')
      with e have "cs = p' @ sub @ q"
        by simp
      with Cons.IH have "str_includes sub cs"
        by auto
      then show ?thesis by simp
    qed
  qed
qed

lemma lazy_until_line:
  "lazy_until d s = Some (x, r) \<Longrightarrow> CHR 0x0A \<notin> set x"
  by (induction s arbitrary: x)
    (auto simp add: is_line_terminator_def split: if_splits option.splits)

lemma replace_span_keeps_newline:
  "CHR 0x0A \<notin> set d \<Longrightarrow> CHR 0x0A \<in> set s \<Longrightarrow> CHR 0x0A \<in> set (replace_span d a b s)"
proof (induction d a b s rule: replace_span.induct)
  case (1 d a b)
  then show ?case by simp
next
  case (2 d a b c cs)
  show ?case
  proof (cases "d \<noteq> [] \<and> prefix d (c # cs)")
    case False
    with 2 show ?thesis by auto
  next
    case True
    show ?thesis
    proof (cases "lazy_until d (drop (length d) (c # cs))")
      case None
      with True 2 show ?thesis by auto
    next
      case (Some xr)
      obtain x r where xr: "xr = (x, r)"
        by (cases xr)
      from Some xr have "drop (length d) (c # cs) = x @ d @ r"
        by (intro lazy_until_split) simp
      moreover from True obtain t where "c # cs = d @ t"
        by (auto simp add: prefix_def)
      ultimately have "set (c # cs) = set d \<union> set x \<union> set r"
        by auto
      moreover have "CHR 0x0A \<notin> set x"
        using Some xr lazy_until_line by simp
      ultimately have "CHR 0x0A \<in> set r"
        using "2.prems" by auto
      with "2.prems"(1) have "CHR 0x0A \<in> set (replace_span d a b r)"
        using "2.IH"(2) [OF True Some xr [symmetric]] by simp
      with True Some xr show ?thesis
        by (simp del: lazy_until.simps)
    qed
  qed
qed

lemma para_breaks_newline:
  "CHR 0x0A \<in> set s \<Longrightarrow>
     str_includes ''</p>'' (para_breaks s) \<or> CHR 0x0A \<in> set (para_breaks s)"
proof (induction s rule: para_breaks.induct)
  case (1 a b cs)
  show ?case
  proof (cases "a = CHR 0x0A \<and> b = CHR 0x0A")
    case True
    then show ?thesis by simp
  next
    case False
    show ?thesis
    proof (cases "a = CHR 0x0A")
      case True
      with False show ?thesis by simp
    next
      case a: False
      with 1 False have "CHR 0x0A \<in> set (b # cs)"
        by simp
      with "1.IH"(2) False
      have "str_includes ''</p>'' (para_breaks (b # cs)) \<or> CHR 0x0A \<in> set (para_breaks (b # cs))"
        by blast
      with False show ?thesis
        by (simp del: para_breaks.simps add: para_breaks.simps(1)) blast
    qed
  qed
qed simp_all

lemma line_breaks_includes_br:
  assumes "CHR 0x0A \<in> set s"
  shows "str_includes ''<br>'' (line_breaks s)"
proof -
  from assms obtain p q where "s = p @ CHR 0x0A # q"
    by (auto dest: split_list)
  then have "line_breaks s = line_breaks p @ ''<br>'' @ line_breaks q"
    by (simp add: line_breaks_append)
  then show ?thesis
    unfolding str_includes_iff by blast
qed

lemma line_breaks_includes_p:
  assumes "str_includes ''</p>'' s"
  shows "str_includes ''</p>'' (line_breaks s)"
proof -
  from assms obtain p q where "s = p @ ''</p>'' @ q"
    unfolding str_includes_iff by blast
  then have "line_breaks s = line_breaks p @ ''</p>'' @ line_breaks q"
    by (simp add: line_breaks_append)
  then show ?thesis
    unfolding str_includes_iff by blast
qed

lemma formatMessage_newline_wrapped:
  assumes "CHR 0x0A \<in> set s"
  shows "formatMessage s = ''<p>'' @ format_body s @ ''</p>''"
proof -
  let ?c = "replace_span [CHR 0x60] ''<code>'' ''</code>''
              (replace_span ''*'' ''<em>'' ''</em>''
                (replace_span ''**'' ''<strong>'' ''</strong>'' s))"
  have "CHR 0x0A \<in> set ?c"
    using assms by (intro replace_span_keeps_newline) simp_all
  then have "str_includes ''</p>'' (para_breaks ?c) \<or> CHR 0x0A \<in> set (para_breaks ?c)"
    by (rule para_breaks_newline)
  then have "str_includes ''<br>'' (format_body s) \<or> str_includes ''</p>'' (format_body s)"
    unfolding format_body_def
    using line_breaks_includes_br line_breaks_includes_p by blast
  then show ?thesis
    by (simp add: formatMessage_wrap)
qed

lemma format_body_no_newline: "CHR 0x0A \<notin> set (format_body s)"
  unfolding format_body_def by (rule line_breaks_no_newline)

lemma formatMessage_no_newline: "CHR 0x0A \<notin> set (formatMessage s)"
  using format_body_no_newline [of s] by (simp add: formatMessage_wrap)

text \<open>\<open>str_includes\<close> decides whether the text occurs.\<close>

lemma str_includes_occurs: "str_includes sub s = occurs_in sub s"
  by (simp add: str_includes_iff occurs_in_def)

lemma formatMessage_wrap_occurs:
  "formatMessage s =
     (if occurs_in ''<br>'' (format_body s) \<or> occurs_in ''</p>'' (format_body s)
      then ''<p>'' @ format_body s @ ''</p>'' else format_body s)"
  by (simp add: formatMessage_wrap str_includes_occurs)

text \<open>
  The lazy match takes the shortest text on one line behind which the delimiter
  stands, and it finds one whenever there is one.
\<close>

lemma lazy_until_one_line:
  "lazy_until d s = Some (x, r) \<Longrightarrow> one_line x"
  by (induction s arbitrary: x)
    (auto simp add: is_line_terminator_def one_line_def split: if_splits option.splits)

lemma lazy_until_shortest:
  assumes "one_line x" and "\<forall>k<length x. \<not> prefix d (drop k (x @ d @ r))"
  shows "lazy_until d (x @ d @ r) = Some (x, r)"
  using assms
proof (induction x)
  case Nil
  show ?case
  proof (cases "d @ r")
    case Nil
    then show ?thesis by simp
  next
    case (Cons e es)
    have "prefix d (d @ r)" and "drop (length d) (d @ r) = r"
      by simp_all
    with Cons show ?thesis by simp
  qed
next
  case (Cons c x)
  from Cons.prems(2) have "\<not> prefix d (drop 0 ((c # x) @ d @ r))"
    by blast
  then have n: "\<not> prefix d (c # x @ d @ r)"
    by simp
  have "\<forall>k<length x. \<not> prefix d (drop k (x @ d @ r))"
  proof (intro allI impI)
    fix k
    assume "k < length x"
    then have "\<not> prefix d (drop (Suc k) ((c # x) @ d @ r))"
      using Cons.prems(2) by (metis Suc_less_eq length_Cons)
    then show "\<not> prefix d (drop k (x @ d @ r))"
      by simp
  qed
  moreover from Cons.prems(1) have "one_line x" and "\<not> is_line_terminator c"
    by (auto simp add: one_line_def is_line_terminator_def)
  ultimately show ?case
    using n Cons.IH by simp
qed

lemma span_at_found:
  assumes "prefix d s" and "lazy_until d (drop (length d) s) = Some (y, q)"
  shows "span_at d s"
proof -
  from assms(2) have "drop (length d) s = y @ d @ q"
    by (rule lazy_until_split)
  moreover from assms(1) have "s = d @ drop (length d) s"
    by (auto simp add: prefix_def)
  ultimately have "s = d @ y @ d @ q"
    by simp
  with lazy_until_one_line [OF assms(2)] show ?thesis
    unfolding span_at_def by blast
qed

lemma span_at_prefix: "span_at d s \<Longrightarrow> prefix d s"
  by (auto simp add: span_at_def)

lemma replace_span_no_span_here:
  assumes "\<not> span_at d (c # cs)"
  shows "replace_span d a b (c # cs) = c # replace_span d a b cs"
proof (cases "d \<noteq> [] \<and> prefix d (c # cs)")
  case False
  then show ?thesis by auto
next
  case True
  have "lazy_until d (drop (length d) (c # cs)) = None"
  proof (cases "lazy_until d (drop (length d) (c # cs))")
    case None
    then show ?thesis .
  next
    case (Some yq)
    obtain y q where "yq = (y, q)"
      by (cases yq)
    with Some True assms show ?thesis
      using span_at_found [of d "c # cs" y q] by simp
  qed
  with True show ?thesis
    by (simp del: lazy_until.simps)
qed

lemma replace_span_no_span: "no_span d s \<Longrightarrow> replace_span d a b s = s"
proof (induction s)
  case Nil
  show ?case by simp
next
  case (Cons c cs)
  from Cons.prems have "\<not> span_at d (drop 0 (c # cs))"
    unfolding no_span_def by (metis length_greater_0_conv list.distinct(1))
  then have h: "\<not> span_at d (c # cs)"
    by simp
  have "no_span d cs"
    unfolding no_span_def
  proof (intro allI impI)
    fix i
    assume "i < length cs"
    then have "\<not> span_at d (drop (Suc i) (c # cs))"
      using Cons.prems unfolding no_span_def by (metis Suc_less_eq length_Cons)
    then show "\<not> span_at d (drop i cs)"
      by simp
  qed
  with Cons.IH have "replace_span d a b cs = cs"
    by blast
  moreover have "replace_span d a b (c # cs) = c # replace_span d a b cs"
    using h by (rule replace_span_no_span_here)
  ultimately show ?case
    by (simp only:)
qed

lemma replace_span_first_span:
  assumes "d \<noteq> []" and "first_span d pre x rest"
  shows "replace_span d a b (pre @ d @ x @ d @ rest) =
           pre @ a @ x @ b @ replace_span d a b rest"
proof -
  from assms(2) have x: "one_line x"
    and k: "\<forall>k<length x. \<not> prefix d (drop k (x @ d @ rest))"
    and i: "\<forall>i<length pre. \<not> span_at d (drop i (pre @ d @ x @ d @ rest))"
    unfolding first_span_def by blast+
  have l: "lazy_until d (x @ d @ rest) = Some (x, rest)"
    using x k by (rule lazy_until_shortest)
  from assms(1) obtain e es where d: "d = e # es"
    by (cases d) auto
  have m: "replace_span d a b (d @ x @ d @ rest) = a @ x @ b @ replace_span d a b rest"
    using l assms(1) unfolding d by (simp del: lazy_until.simps)
  from i show ?thesis
  proof (induction pre)
    case Nil
    show ?case using m by simp
  next
    case (Cons c pre)
    from Cons.prems have "\<not> span_at d (drop 0 ((c # pre) @ d @ x @ d @ rest))"
      by (metis length_greater_0_conv list.distinct(1))
    then have h: "\<not> span_at d (c # pre @ d @ x @ d @ rest)"
      by simp
    have "\<forall>i<length pre. \<not> span_at d (drop i (pre @ d @ x @ d @ rest))"
    proof (intro allI impI)
      fix j
      assume "j < length pre"
      then have "\<not> span_at d (drop (Suc j) ((c # pre) @ d @ x @ d @ rest))"
        using Cons.prems by (metis Suc_less_eq length_Cons)
      then show "\<not> span_at d (drop j (pre @ d @ x @ d @ rest))"
        by simp
    qed
    with Cons.IH have "replace_span d a b (pre @ d @ x @ d @ rest) =
        pre @ a @ x @ b @ replace_span d a b rest"
      by blast
    moreover have "replace_span d a b (c # pre @ d @ x @ d @ rest) =
        c # replace_span d a b (pre @ d @ x @ d @ rest)"
      using h by (rule replace_span_no_span_here)
    ultimately show ?case
      by (simp only: append_Cons)
  qed
qed

text \<open>The two replacements of newlines, for every text.\<close>

lemma occurs_in_Cons: "occurs_in sub s \<Longrightarrow> occurs_in sub (c # s)"
  unfolding occurs_in_def by (metis append_Cons)

lemma occurs_in_prefix: "prefix sub s \<Longrightarrow> occurs_in sub s"
  unfolding occurs_in_def prefix_def by (metis append_Nil)

lemma para_breaks_none:
  "\<not> occurs_in [CHR 0x0A, CHR 0x0A] s \<Longrightarrow> para_breaks s = s"
proof (induction s rule: para_breaks.induct)
  case (1 a b cs)
  have n: "\<not> (a = CHR 0x0A \<and> b = CHR 0x0A)"
  proof
    assume "a = CHR 0x0A \<and> b = CHR 0x0A"
    then have "prefix [CHR 0x0A, CHR 0x0A] (a # b # cs)"
      by simp
    then have "occurs_in [CHR 0x0A, CHR 0x0A] (a # b # cs)"
      by (rule occurs_in_prefix)
    with "1.prems" show False
      by blast
  qed
  moreover from "1.prems" have "\<not> occurs_in [CHR 0x0A, CHR 0x0A] (b # cs)"
    using occurs_in_Cons by blast
  ultimately show ?case
    using "1.IH"(2) by simp
qed simp_all

lemma para_breaks_first:
  assumes "\<not> occurs_in [CHR 0x0A, CHR 0x0A] (pre @ [CHR 0x0A])"
  shows "para_breaks (pre @ [CHR 0x0A, CHR 0x0A] @ rest) =
           pre @ ''</p><p>'' @ para_breaks rest"
  using assms
proof (induction pre)
  case Nil
  show ?case by simp
next
  case (Cons a pre)
  from Cons.prems have "\<not> occurs_in [CHR 0x0A, CHR 0x0A] (pre @ [CHR 0x0A])"
    using occurs_in_Cons by fastforce
  with Cons.IH have ih: "para_breaks (pre @ [CHR 0x0A, CHR 0x0A] @ rest) =
      pre @ ''</p><p>'' @ para_breaks rest"
    by blast
  obtain b cs where bc: "pre @ [CHR 0x0A, CHR 0x0A] @ rest = b # cs"
    by (cases "pre @ [CHR 0x0A, CHR 0x0A] @ rest") auto
  have "\<not> (a = CHR 0x0A \<and> b = CHR 0x0A)"
  proof
    assume ab: "a = CHR 0x0A \<and> b = CHR 0x0A"
    have "prefix [CHR 0x0A, CHR 0x0A] ((a # pre) @ [CHR 0x0A])"
    proof (cases pre)
      case Nil
      with ab show ?thesis by simp
    next
      case (Cons p ps)
      with bc ab show ?thesis by simp
    qed
    with Cons.prems show False
      using occurs_in_prefix by blast
  qed
  then have "para_breaks (a # b # cs) = a # para_breaks (b # cs)"
    by auto
  with bc ih show ?case
    by simp
qed

lemma line_breaks_first:
  "CHR 0x0A \<notin> set pre \<Longrightarrow>
     line_breaks (pre @ [CHR 0x0A] @ rest) = pre @ ''<br>'' @ line_breaks rest"
  by (simp add: line_breaks_append line_breaks_id)

text \<open>
  A text for which the delimiter is not empty either holds no span or splits at its
  first span, so the two cases above cover every text.
\<close>

lemma lazy_until_complete:
  "one_line y \<Longrightarrow> \<exists>x r. lazy_until d (y @ d @ q) = Some (x, r)"
proof (induction y)
  case Nil
  show ?case
  proof (cases "d @ q")
    case Nil
    then show ?thesis by simp
  next
    case (Cons e es)
    have "prefix d (d @ q)"
      by simp
    with Cons show ?thesis by simp
  qed
next
  case (Cons c y)
  then have "one_line y" and "\<not> is_line_terminator c"
    by (auto simp add: one_line_def is_line_terminator_def)
  with Cons.IH obtain x r where "lazy_until d (y @ d @ q) = Some (x, r)"
    by blast
  with \<open>\<not> is_line_terminator c\<close> show ?case
    by (cases "prefix d (c # y @ d @ q)") simp_all
qed

lemma lazy_until_minimal:
  "lazy_until d s = Some (x, r) \<Longrightarrow> k < length x \<Longrightarrow> \<not> prefix d (drop k s)"
proof (induction s arbitrary: x k)
  case Nil
  then show ?case by (simp split: if_splits)
next
  case (Cons c cs)
  show ?case
  proof (cases "prefix d (c # cs)")
    case True
    with Cons.prems show ?thesis by simp
  next
    case False
    with Cons.prems obtain x' where x: "x = c # x'" and l: "lazy_until d cs = Some (x', r)"
      by (auto split: if_splits option.splits)
    show ?thesis
    proof (cases k)
      case 0
      with False show ?thesis by simp
    next
      case (Suc j)
      with Cons.prems(2) x have "j < length x'"
        by simp
      with Cons.IH [OF l] Suc show ?thesis
        by simp
    qed
  qed
qed

lemma span_at_first:
  assumes "d \<noteq> []" and "span_at d s"
  shows "\<exists>x rest. s = d @ x @ d @ rest \<and> first_span d [] x rest"
proof -
  from assms(2) obtain y q where s: "s = d @ y @ d @ q" and y: "one_line y"
    unfolding span_at_def by blast
  from lazy_until_complete [OF y] obtain x r where l: "lazy_until d (y @ d @ q) = Some (x, r)"
    by blast
  then have e: "y @ d @ q = x @ d @ r"
    by (rule lazy_until_split)
  have "\<forall>k<length x. \<not> prefix d (drop k (x @ d @ r))"
    using lazy_until_minimal [OF l] e by simp
  with lazy_until_one_line [OF l] have "first_span d [] x r"
    unfolding first_span_def by simp
  with s e show ?thesis
    by auto
qed

lemma span_cases:
  assumes "d \<noteq> []"
  shows "no_span d s \<or> (\<exists>pre x rest. s = pre @ d @ x @ d @ rest \<and> first_span d pre x rest)"
proof (induction s)
  case Nil
  show ?case by (simp add: no_span_def)
next
  case (Cons c cs)
  show ?case
  proof (cases "span_at d (c # cs)")
    case True
    from span_at_first [OF assms True]
    obtain x rest where "c # cs = [] @ d @ x @ d @ rest" and "first_span d [] x rest"
      by auto
    then show ?thesis by blast
  next
    case False
    from Cons.IH show ?thesis
    proof
      assume n: "no_span d cs"
      have "no_span d (c # cs)"
        unfolding no_span_def
      proof (intro allI impI)
        fix i
        assume "i < length (c # cs)"
        show "\<not> span_at d (drop i (c # cs))"
        proof (cases i)
          case 0
          with False show ?thesis by simp
        next
          case (Suc j)
          with \<open>i < length (c # cs)\<close> n show ?thesis
            by (simp add: no_span_def)
        qed
      qed
      then show ?thesis by blast
    next
      assume "\<exists>pre x rest. cs = pre @ d @ x @ d @ rest \<and> first_span d pre x rest"
      then obtain pre x rest where cs: "cs = pre @ d @ x @ d @ rest"
        and f: "first_span d pre x rest"
        by blast
      have "first_span d (c # pre) x rest"
        unfolding first_span_def
      proof (intro conjI allI impI)
        from f show "one_line x"
          by (simp add: first_span_def)
        from f show "\<And>k. k < length x \<Longrightarrow> \<not> prefix d (drop k (x @ d @ rest))"
          by (simp add: first_span_def)
        fix i
        assume i: "i < length (c # pre)"
        show "\<not> span_at d (drop i ((c # pre) @ d @ x @ d @ rest))"
        proof (cases i)
          case 0
          with False cs show ?thesis by simp
        next
          case (Suc j)
          with i f show ?thesis
            by (simp add: first_span_def)
        qed
      qed
      moreover have "c # cs = (c # pre) @ d @ x @ d @ rest"
        using cs by simp
      ultimately show ?thesis by blast
    qed
  qed
qed

subsection \<open>Single flight holds along every run\<close>

lemma begin_cases:
  "sendMessage_begin s = (s, None) \<and> (trim (input_value s) = [] \<or> isTyping s) \<or>
   \<not> isTyping s \<and> trim (input_value s) \<noteq> [] \<and>
     sendMessage_begin s =
       (s\<lparr>input_value := [],
          messages := messages s @
            [MessageDiv ''message user-message'' UserIcon ''message-text''
               (formatMessage (trim (input_value s))) (clock s)
               (html s (formatMessage (trim (input_value s)))),
             TypingDiv (clock s)],
          isTyping := True,
          requests := requests s @ [PostChat (trim (input_value s))]\<rparr>,
        Some (trim (input_value s), clock s))"
proof (cases "trim (input_value s) = [] \<or> isTyping s")
  case True
  then have "sendMessage_begin s = (s, None)"
    by (auto simp add: sendMessage_begin_def)
  with True show ?thesis by blast
next
  case False
  then show ?thesis
    using sendMessage_begin_sends [of s] by blast
qed

lemma single_flight_begin:
  assumes "single_flight (s, ps)"
  shows "single_flight (case sendMessage_begin s of (s', q) \<Rightarrow> (s', ps @ pending_of q))"
proof -
  consider (noop) "sendMessage_begin s = (s, None)"
    | (sent) "\<not> isTyping s" "\<exists>s' p. sendMessage_begin s = (s', Some p) \<and> isTyping s'"
    using begin_cases [of s] by auto
  then show ?thesis
  proof cases
    case noop
    with assms show ?thesis by simp
  next
    case sent
    have "ps = []"
    proof (cases ps)
      case Nil
      then show ?thesis by simp
    next
      case (Cons p qs)
      with assms sent(1) show ?thesis
        by (cases qs) simp_all
    qed
    with sent(2) show ?thesis by auto
  qed
qed

lemma restore_messages_flag: "isTyping (restore_messages items s) = isTyping s"
proof (induction items arbitrary: s)
  case Nil
  show ?case by simp
next
  case (Cons item items)
  show ?case
  proof (cases "message item")
    case (JStr c)
    then show ?thesis
      by (simp add: addMessage_string Cons)
  qed (simp_all add: addMessage_def)
qed

lemma single_flight_settle:
  assumes "single_flight (s, p # ps)"
  shows "single_flight (sendMessage_settle p r s, ps)"
proof -
  from assms have "ps = []"
    by (cases ps) simp_all
  then show ?thesis
    by (simp add: sendMessage_settle_flag)
qed

lemma single_flight_other:
  assumes "single_flight (s, ps)" and "isTyping s' = isTyping s"
  shows "single_flight (s', ps)"
proof (cases ps)
  case Nil
  with assms show ?thesis by simp
next
  case (Cons p qs)
  with assms show ?thesis
    by (cases qs) simp_all
qed

theorem single_flight_step:
  assumes "single_flight c"
  shows "single_flight (step e c)"
proof -
  obtain s ps where c: "c = (s, ps)"
    by (cases c)
  show ?thesis
  proof (cases e)
    case (Typed v)
    with assms c show ?thesis
      by (auto intro: single_flight_other)
  next
    case SendRequested
    with assms c show ?thesis
      using single_flight_begin [of s ps] by simp
  next
    case (SuggestionClicked v)
    from assms c have "single_flight (s\<lparr>input_value := v\<rparr>, ps)"
      by (auto intro: single_flight_other)
    with SuggestionClicked c show ?thesis
      using single_flight_begin [of "s\<lparr>input_value := v\<rparr>" ps]
      by (simp add: sendSuggestion_def)
  next
    case (ChatReply r)
    with assms c show ?thesis
      by (cases ps) (simp_all add: single_flight_settle)
  next
    case (StatusReply r)
    have "isTyping (checkSystemStatus r s) = isTyping s"
      by (cases r)
        (simp_all add: checkSystemStatus_def checkSystemStatus_try_def showToast_def
          disableChat_def enableChat_def updateStatusIndicator_def)
    with StatusReply assms c show ?thesis
      by (auto intro: single_flight_other)
  next
    case (ClearRequested cf r)
    have "isTyping (clearConversation cf r s) = isTyping s"
      by (cases r)
        (simp_all add: clearConversation_def clearConversation_catch_def showToast_def
          Let_def)
    with ClearRequested assms c show ?thesis
      by (auto intro: single_flight_other)
  next
    case (HistoryReply r)
    have "isTyping (loadConversationHistory r s) = isTyping s"
      by (cases r)
        (simp_all add: loadConversationHistory_def restore_messages_flag Let_def
          split: history_field.splits)
    with HistoryReply assms c show ?thesis
      by (auto intro: single_flight_other)
  next
    case (TimePasses t)
    have "isTyping (advance t s) = isTyping s"
      by (simp add: advance_def)
    with TimePasses assms c show ?thesis
      by (auto intro: single_flight_other)
  qed
qed

theorem single_flight_run:
  "single_flight c \<Longrightarrow> single_flight (fold step es c)"
  by (induction es arbitrary: c) (simp_all add: single_flight_step)

lemma single_flight_initial: "single_flight (new_CementGPT page, [])"
  by (simp add: new_CementGPT_def)

section \<open>Properties of the message exchange\<close>




text \<open>
  C2. While a send is in flight (the flag is set), \<open>sendMessage\<close> returns at once:
  the state is the one it was called in, so the transcript, \<open>conversationHistory\<close>
  and the list of requests issued are unchanged, and no continuation is left
  waiting for an answer.
\<close>

theorem sendMessage_in_flight_noop:
  "isTyping s \<Longrightarrow> sendMessage_begin s = (s, None)"
  by (simp add: sendMessage_begin_def)

theorem sendMessage_in_flight_noop_witness:
  "isTyping (example_in_flight\<lparr>input_value := ''again''\<rparr>) \<and>
   sendMessage_begin (example_in_flight\<lparr>input_value := ''again''\<rparr>) =
     (example_in_flight\<lparr>input_value := ''again''\<rparr>, None)"
  using sendMessage_in_flight_noop [of "example_in_flight\<lparr>input_value := ''again''\<rparr>"]
  by (simp add: example_in_flight_eq)




text \<open>
  C4 (the code departs from it). The status check fails, so the indicator shows
  offline and the input and the send button are disabled; the suggestion entry
  point then still issues a chat request, because \<open>sendMessage\<close> tests the text and
  the in-flight flag only.
\<close>

theorem sendSuggestion_while_offline:
  "(let s1 = checkSystemStatus FetchRejected (new_CementGPT pg);
        (s2, p) = sendSuggestion ''hello'' s1
    in indicator_class s1 = ''status-indicator offline'' \<and>
       input_disabled s1 \<and> send_disabled s1 \<and>
       p = Some (''hello'', clock pg) \<and>
       requests s2 = requests pg @ [GetStatus, PostChat ''hello''])"
  by (simp add: checkSystemStatus_def checkSystemStatus_try_def showToast_def
      disableChat_def updateStatusIndicator_def new_CementGPT_def sendSuggestion_def
      sendMessage_begin_def addMessage_def addTypingIndicator_def trim_def is_space_def Let_def)

section \<open>Properties of clearing and loading the conversation\<close>

text \<open>
  C5 (the code departs from it). After confirmation, when the clear request resolves
  with a status other than success, the state is left as it was but for the request
  issued: nothing is cleared, and no notification is shown either, since the branch
  has no \<open>else\<close>.
\<close>

theorem clearConversation_failure_silent:
  "clearConversation True (Json \<lparr>clear_status = JStr ''error''\<rparr>) s =
     s\<lparr>requests := requests s @ [PostClear]\<rparr>"
  by (simp add: clearConversation_def Let_def)



text \<open>
  C10. When the history request fails, the body is not JSON, the status is not
  \<open>success\<close> or the history is empty, \<open>loadConversationHistory\<close> changes nothing
  but the list of requests issued: \<open>conversationHistory\<close>, the transcript and the
  notification stay as they were.
\<close>

theorem loadConversationHistory_silent:
  assumes "r = FetchRejected \<or> r = NotJson \<or>
           (\<exists>d. r = Json d \<and>
              (history_status d \<noteq> JStr ''success'' \<or> history d = HistoryArray []))"
  shows "loadConversationHistory r s = s\<lparr>requests := requests s @ [GetHistory]\<rparr>"
  using assms by (auto simp add: loadConversationHistory_def Let_def)

theorem loadConversationHistory_silent_witness:
  "loadConversationHistory
     (Json \<lparr>history_status = JStr ''success'', history = HistoryArray []\<rparr>)
     (new_CementGPT example_page) =
   new_CementGPT example_page\<lparr>requests := [GetHistory]\<rparr> \<and>
   loadConversationHistory
     (Json \<lparr>history_status = JStr ''error'', history = HistoryUndefined\<rparr>)
     (new_CementGPT example_page) =
   new_CementGPT example_page\<lparr>requests := [GetHistory]\<rparr> \<and>
   loadConversationHistory NotJson (new_CementGPT example_page) =
   new_CementGPT example_page\<lparr>requests := [GetHistory]\<rparr>"
  using loadConversationHistory_silent
    [of "Json \<lparr>history_status = JStr ''success'', history = HistoryArray []\<rparr>"
        "new_CementGPT example_page"]
    loadConversationHistory_silent
    [of "Json \<lparr>history_status = JStr ''error'', history = HistoryUndefined\<rparr>"
        "new_CementGPT example_page"]
    loadConversationHistory_silent [of NotJson "new_CementGPT example_page"]
  by (simp add: example_page_def new_CementGPT_def)

section \<open>Properties of readiness and notifications\<close>

lemma checkSystemStatus_field: "systemStatus (checkSystemStatus r s) = systemStatus s"
  by (cases r)
    (simp_all add: checkSystemStatus_def checkSystemStatus_try_def showToast_def
      disableChat_def enableChat_def updateStatusIndicator_def)



text \<open>
  A notification shown while no timer is pending stays visible until five seconds
  have passed and is hidden from then on.
\<close>

lemma showToast_alone:
  assumes "timers s = []" and "clock s \<le> t"
  shows "toast_show (advance t (showToast k m s)) = (t < clock s + 5000)"
  using assms by (auto simp add: showToast_def advance_def)

text \<open>
  C9 (the code departs from it). A first notification is shown, a second one three
  seconds later; two seconds after that the timer of the first one runs and hides
  the second, which has been visible for two seconds instead of five.
\<close>

theorem showToast_cut_short:
  "(let s1 = showToast k1 m1 s;
        s2 = showToast k2 m2 (advance (clock s + 3000) s1);
        s3 = advance (clock s + 5000) s2
    in toast_show s2 \<and> toast_message s2 = m2 \<and> clock s2 = clock s + 3000 \<and>
       clock s3 = clock s + 5000 \<and> toast_message s3 = m2 \<and> toast_show s3 = False)"
  by (simp add: showToast_def advance_def Let_def)


section \<open>Properties of message formatting\<close>

text \<open>
  C8, as the code has it. \<open>formatMessage\<close> is a function of its argument alone. It
  makes five replacements, each over the whole result of the one before: bold for
  \<open>**x**\<close>, italic for \<open>*x*\<close>, code for a backquoted \<open>x\<close>, a paragraph break for a
  double newline, a line break for a newline. For every text, a replacement of spans
  leaves a text without a span as it is, and otherwise puts the markup around the
  \<open>x\<close> of the first span, a text on one line, keeps what stands ahead of it and goes
  on behind it; one of the two is the case. Likewise the first double newline becomes
  a paragraph break and the first newline a line break, with what stands ahead kept
  and what follows treated in the same way. No newline is left in the output. The
  output is wrapped in a paragraph element exactly when the converted text contains
  \<open><br>\<close> or \<open></p>\<close>, which it does whenever the input has a newline. The example
  of the specification formats as it says.
\<close>

theorem formatMessage_markup:
  "(\<forall>s. formatMessage s =
      (if occurs_in ''<br>'' (format_body s) \<or> occurs_in ''</p>'' (format_body s)
       then ''<p>'' @ format_body s @ ''</p>'' else format_body s)) \<and>
   (\<forall>s. format_body s =
      line_breaks (para_breaks
        (replace_span [CHR 0x60] ''<code>'' ''</code>''
          (replace_span ''*'' ''<em>'' ''</em>''
            (replace_span ''**'' ''<strong>'' ''</strong>'' s))))) \<and>
   (\<forall>d a b pre x rest. d \<noteq> [] \<and> first_span d pre x rest \<longrightarrow>
      replace_span d a b (pre @ d @ x @ d @ rest) =
        pre @ a @ x @ b @ replace_span d a b rest) \<and>
   (\<forall>d a b s. no_span d s \<longrightarrow> replace_span d a b s = s) \<and>
   (\<forall>d s. d \<noteq> [] \<longrightarrow>
      no_span d s \<or>
      (\<exists>pre x rest. s = pre @ d @ x @ d @ rest \<and> first_span d pre x rest)) \<and>
   (\<forall>pre rest. \<not> occurs_in [CHR 0x0A, CHR 0x0A] (pre @ [CHR 0x0A]) \<longrightarrow>
      para_breaks (pre @ [CHR 0x0A, CHR 0x0A] @ rest) =
        pre @ ''</p><p>'' @ para_breaks rest) \<and>
   (\<forall>s. \<not> occurs_in [CHR 0x0A, CHR 0x0A] s \<longrightarrow> para_breaks s = s) \<and>
   (\<forall>pre rest. CHR 0x0A \<notin> set pre \<longrightarrow>
      line_breaks (pre @ [CHR 0x0A] @ rest) = pre @ ''<br>'' @ line_breaks rest) \<and>
   (\<forall>s. CHR 0x0A \<notin> set s \<longrightarrow> line_breaks s = s) \<and>
   (\<forall>s. CHR 0x0A \<notin> set (formatMessage s)) \<and>
   (\<forall>s. CHR 0x0A \<in> set s \<longrightarrow> formatMessage s = ''<p>'' @ format_body s @ ''</p>'') \<and>
   formatMessage (''**bold** and *italic* and '' @ [CHR 0x60] @ ''code'' @
       [CHR 0x60, CHR 0x0A, CHR 0x0A] @ ''next para'') =
     ''<p><strong>bold</strong> and <em>italic</em> and <code>code</code></p><p>next para</p>''"
proof (intro conjI allI impI)
  fix s
  show "formatMessage s =
      (if occurs_in ''<br>'' (format_body s) \<or> occurs_in ''</p>'' (format_body s)
       then ''<p>'' @ format_body s @ ''</p>'' else format_body s)"
    by (rule formatMessage_wrap_occurs)
next
  fix s
  show "format_body s =
      line_breaks (para_breaks
        (replace_span [CHR 0x60] ''<code>'' ''</code>''
          (replace_span ''*'' ''<em>'' ''</em>''
            (replace_span ''**'' ''<strong>'' ''</strong>'' s))))"
    by (rule format_body_def)
next
  fix d a b pre x rest
  assume "d \<noteq> [] \<and> first_span d pre x rest"
  then show "replace_span d a b (pre @ d @ x @ d @ rest) =
      pre @ a @ x @ b @ replace_span d a b rest"
    by (intro replace_span_first_span) simp_all
next
  fix d a b s
  assume "no_span d s"
  then show "replace_span d a b s = s"
    by (rule replace_span_no_span)
next
  fix d :: string and s
  assume "d \<noteq> []"
  then show "no_span d s \<or>
      (\<exists>pre x rest. s = pre @ d @ x @ d @ rest \<and> first_span d pre x rest)"
    by (rule span_cases)
next
  fix pre rest
  assume "\<not> occurs_in [CHR 0x0A, CHR 0x0A] (pre @ [CHR 0x0A])"
  then show "para_breaks (pre @ [CHR 0x0A, CHR 0x0A] @ rest) =
      pre @ ''</p><p>'' @ para_breaks rest"
    by (rule para_breaks_first)
next
  fix s
  assume "\<not> occurs_in [CHR 0x0A, CHR 0x0A] s"
  then show "para_breaks s = s"
    by (rule para_breaks_none)
next
  fix pre rest
  assume "CHR 0x0A \<notin> set pre"
  then show "line_breaks (pre @ [CHR 0x0A] @ rest) = pre @ ''<br>'' @ line_breaks rest"
    by (rule line_breaks_first)
next
  fix s :: string
  assume "CHR 0x0A \<notin> set s"
  then show "line_breaks s = s"
    by (rule line_breaks_id)
next
  fix s
  show "CHR 0x0A \<notin> set (formatMessage s)"
    by (rule formatMessage_no_newline)
next
  fix s
  assume "CHR 0x0A \<in> set s"
  then show "formatMessage s = ''<p>'' @ format_body s @ ''</p>''"
    by (rule formatMessage_newline_wrapped)
next
  show "formatMessage (''**bold** and *italic* and '' @ [CHR 0x60] @ ''code'' @
       [CHR 0x60, CHR 0x0A, CHR 0x0A] @ ''next para'') =
     ''<p><strong>bold</strong> and <em>italic</em> and <code>code</code></p><p>next para</p>''"
    by code_simp
qed

text \<open>
  The clauses at concrete texts: a bold span behind a stray asterisk, a double
  newline behind a stray asterisk, a single newline, and the wrapping of a text with
  a newline.
\<close>

theorem formatMessage_markup_witness:
  "replace_span ''**'' ''<strong>'' ''</strong>'' ''* **b** c'' = ''* <strong>b</strong> c'' \<and>
   (no_span ''**'' ''* **b** c'' \<or>
    (\<exists>pre x rest. ''* **b** c'' = pre @ ''**'' @ x @ ''**'' @ rest \<and>
       first_span ''**'' pre x rest)) \<and>
   para_breaks (''2 * 3'' @ [CHR 0x0A, CHR 0x0A] @ ''x'') = ''2 * 3</p><p>x'' \<and>
   line_breaks (''a'' @ [CHR 0x0A] @ ''b'') = ''a<br>b'' \<and>
   formatMessage (''a'' @ [CHR 0x0A] @ ''b'') =
     ''<p>'' @ format_body (''a'' @ [CHR 0x0A] @ ''b'') @ ''</p>''"
proof -
  note t = formatMessage_markup
  have f: "first_span ''**'' ''* '' ''b'' '' c''"
    unfolding first_span_def
  proof (intro conjI allI impI)
    show "one_line ''b''"
      by (simp add: one_line_def)
  next
    fix i :: nat
    assume "i < length ''* ''"
    then have "i = 0 \<or> i = 1"
      by auto
    then have "\<not> prefix ''**'' (drop i (''* '' @ ''**'' @ ''b'' @ ''**'' @ '' c''))"
      by auto
    then show "\<not> span_at ''**'' (drop i (''* '' @ ''**'' @ ''b'' @ ''**'' @ '' c''))"
      using span_at_prefix by blast
  next
    fix k :: nat
    assume "k < length ''b''"
    then show "\<not> prefix ''**'' (drop k (''b'' @ ''**'' @ '' c''))"
      by simp
  qed
  have n: "no_span ''**'' '' c''"
    unfolding no_span_def
  proof (intro allI impI)
    fix i :: nat
    assume "i < length '' c''"
    then have "i = 0 \<or> i = 1"
      by auto
    then have "\<not> prefix ''**'' (drop i '' c'')"
      by auto
    then show "\<not> span_at ''**'' (drop i '' c'')"
      using span_at_prefix by blast
  qed
  from t have first: "d \<noteq> [] \<and> first_span d pre x rest \<longrightarrow>
      replace_span d a b (pre @ d @ x @ d @ rest) =
        pre @ a @ x @ b @ replace_span d a b rest" for d a b pre x rest
    by (elim conjE) (erule allE)+
  from t have none: "no_span d s \<longrightarrow> replace_span d a b s = s" for d a b s
    by (elim conjE) (erule allE)+
  from t have cases: "d \<noteq> [] \<longrightarrow> no_span d s \<or>
      (\<exists>pre x rest. s = pre @ d @ x @ d @ rest \<and> first_span d pre x rest)" for d s
    by (elim conjE) (erule allE)+
  from t have para: "\<not> occurs_in [CHR 0x0A, CHR 0x0A] (pre @ [CHR 0x0A]) \<longrightarrow>
      para_breaks (pre @ [CHR 0x0A, CHR 0x0A] @ rest) =
        pre @ ''</p><p>'' @ para_breaks rest" for pre rest
    by (elim conjE) (erule allE)+
  from t have para_none: "\<not> occurs_in [CHR 0x0A, CHR 0x0A] s \<longrightarrow> para_breaks s = s" for s
    by (elim conjE) (erule allE)+
  from t have line: "CHR 0x0A \<notin> set pre \<longrightarrow>
      line_breaks (pre @ [CHR 0x0A] @ rest) = pre @ ''<br>'' @ line_breaks rest" for pre rest
    by (elim conjE) (erule allE)+
  from t have line_none: "CHR 0x0A \<notin> set s \<longrightarrow> line_breaks s = s" for s :: string
    by (elim conjE) (erule allE)+
  from t have wrapped: "CHR 0x0A \<in> set s \<longrightarrow>
      formatMessage s = ''<p>'' @ format_body s @ ''</p>''" for s
    by (elim conjE) (erule allE)+
  have "replace_span ''**'' ''<strong>'' ''</strong>''
      (''* '' @ ''**'' @ ''b'' @ ''**'' @ '' c'') =
      ''* '' @ ''<strong>'' @ ''b'' @ ''</strong>'' @
        replace_span ''**'' ''<strong>'' ''</strong>'' '' c''"
    using first [of "''**''" "''* ''" "''b''" "'' c''" "''<strong>''" "''</strong>''"] f
    by (simp del: replace_span.simps)
  moreover have "replace_span ''**'' ''<strong>'' ''</strong>'' '' c'' = '' c''"
    using none [of "''**''" "'' c''" "''<strong>''" "''</strong>''"] n
    by (simp del: replace_span.simps)
  ultimately have 1: "replace_span ''**'' ''<strong>'' ''</strong>'' ''* **b** c'' =
      ''* <strong>b</strong> c''"
    by (simp del: replace_span.simps)
  have 2: "no_span ''**'' ''* **b** c'' \<or>
      (\<exists>pre x rest. ''* **b** c'' = pre @ ''**'' @ x @ ''**'' @ rest \<and>
         first_span ''**'' pre x rest)"
    using cases [of "''**''" "''* **b** c''"] by simp
  have "\<not> occurs_in [CHR 0x0A, CHR 0x0A] (''2 * 3'' @ [CHR 0x0A])"
    by (simp add: str_includes_occurs [symmetric])
  then have "para_breaks (''2 * 3'' @ [CHR 0x0A, CHR 0x0A] @ ''x'') =
      ''2 * 3'' @ ''</p><p>'' @ para_breaks ''x''"
    using para [of "''2 * 3''" "''x''"] by (simp del: para_breaks.simps)
  moreover have "\<not> occurs_in [CHR 0x0A, CHR 0x0A] ''x''"
    by (simp add: str_includes_occurs [symmetric])
  then have "para_breaks ''x'' = ''x''"
    using para_none [of "''x''"] by (simp del: para_breaks.simps)
  ultimately have 3: "para_breaks (''2 * 3'' @ [CHR 0x0A, CHR 0x0A] @ ''x'') =
      ''2 * 3</p><p>x''"
    by (simp del: para_breaks.simps)
  have "line_breaks (''a'' @ [CHR 0x0A] @ ''b'') = ''a'' @ ''<br>'' @ line_breaks ''b''"
    using line [of "''a''" "''b''"] by (simp del: line_breaks.simps)
  moreover have "line_breaks ''b'' = ''b''"
    using line_none [of "''b''"] by (simp del: line_breaks.simps)
  ultimately have 4: "line_breaks (''a'' @ [CHR 0x0A] @ ''b'') = ''a<br>b''"
    by (simp del: line_breaks.simps)
  have 5: "formatMessage (''a'' @ [CHR 0x0A] @ ''b'') =
      ''<p>'' @ format_body (''a'' @ [CHR 0x0A] @ ''b'') @ ''</p>''"
    using wrapped [of "''a'' @ [CHR 0x0A] @ ''b''"] by simp
  from 1 2 3 4 5 show ?thesis
    by (intro conjI)
qed

text \<open>
  C8, as stated, fails in two places. The input \<open><br>\<close> has no newline, the five
  replacements leave it as it is and no break is produced, yet the output is wrapped
  in a paragraph, because the test looks for the markup and not for a replacement made.
  And a span \<open>**x**\<close> whose \<open>x\<close> holds a newline is not made bold: the dot of the
  pattern stops at the newline, and the italic pattern then matches the two asterisks
  at either end as empty spans.
\<close>

theorem formatMessage_wrap_counterexample:
  "CHR 0x0A \<notin> set ''<br>'' \<and>
   format_body ''<br>'' = ''<br>'' \<and>
   formatMessage ''<br>'' = ''<p><br></p>'' \<and>
   formatMessage (''**a'' @ [CHR 0x0A] @ ''b**'') = ''<p><em></em>a<br>b<em></em></p>''"
  by (simp add: formatMessage_def format_body_def is_line_terminator_def)

end
